theory Spec2Isabelle
  imports Main
begin

section \<open>JavaScript values that reach the traversal\<close>

text \<open>
  The module \<^verbatim>\<open>src/render/traverse.js\<close> walks a virtual DOM tree and pushes HTML
  segments into a sequence.  Its five functions are \<^verbatim>\<open>renderChildrenArray\<close>,
  \<^verbatim>\<open>renderChildren\<close>, \<^verbatim>\<open>renderNode\<close>, \<^verbatim>\<open>evalComponent\<close> and
  \<^verbatim>\<open>traverse\<close>.  The values they inspect are JavaScript values; the embedding keeps
  the shapes the code can tell apart with \<^verbatim>\<open>!node\<close>, \<^verbatim>\<open>typeof\<close>,
  \<^verbatim>\<open>instanceof Array\<close>, \<^verbatim>\<open>typeof node.type\<close> and \<^verbatim>\<open>node.$$typeof\<close>.
\<close>

text \<open>An object's identity (its reference), as an address.\<close>

type_synonym ref = nat

text \<open>
  \<^verbatim>\<open>TypeError\<close> is what \<^verbatim>\<open>traverse\<close> throws itself and what the runtime throws on
  a call of a non-function; \<open>Thrown\<close> is any error thrown by user code (a component
  function, a constructor, a lifecycle hook, \<^verbatim>\<open>render\<close>).
\<close>

datatype error = TypeError string | Thrown string

text \<open>
  Primitive values.  Numbers are the integer-valued ones together with \<^verbatim>\<open>NaN\<close>;
  fractions and the exponent notation of \<^verbatim>\<open>Number.prototype.toString\<close> are outside
  the model.
\<close>

datatype prim = Undefined | Null | Boolean bool | Number int | NaN | String string

text \<open>
  The value of the prop \<^verbatim>\<open>dangerouslySetInnerHTML\<close>: a primitive (\<open>Undefined\<close> when
  the prop is absent), or an object, of which only the field \<^verbatim>\<open>__html\<close> is read
  (\<open>Undefined\<close> when the object has no such field).
\<close>

datatype rawhtml = RawPrim prim | RawObject prim

text \<open>
  What \<^verbatim>\<open>componentWillMount\<close> may return.  A thenable is described by what the event
  loop will do with it: \<open>Fulfils k g\<close> runs its fulfilment callbacks on turn \<open>k\<close> of the
  event loop (turns are counted from \<open>0\<close> after the hook returned), the callbacks run
  until then having changed the instance's state by \<open>g\<close>; \<open>Rejects k e\<close> is rejected
  on turn \<open>k\<close>; \<open>NeverSettles\<close> stays pending.
\<close>

datatype 's promise = Fulfils nat "'s \<Rightarrow> 's" | Rejects nat error | NeverSettles

datatype 's hook_return = NotThenable | Thenable "'s promise"

text \<open>
  A call of the hook on an instance with state \<open>s\<close> either throws, or returns a value
  and leaves the instance in a new state (the hook calls \<^verbatim>\<open>this.setState\<close>, which
  \<^verbatim>\<open>evalComponent\<close> has replaced by the synchronous \<^verbatim>\<open>syncSetState\<close>).
\<close>

datatype 's hook_result = HookThrows error | HookReturns 's "'s hook_return"

text \<open>
  Nodes.  \<open>Object r ty marker raw children attrs\<close> is an object with identity \<open>r\<close>,
  field \<^verbatim>\<open>type\<close> equal to \<open>ty\<close>, a truthy (\<open>True\<close>) or falsy field \<^verbatim>\<open>$$typeof\<close>, and
  props made of \<^verbatim>\<open>dangerouslySetInnerHTML\<close>, \<^verbatim>\<open>children\<close> and the remaining
  attributes.  \<open>Closure\<close> is a function value met where a node is expected.

  The field \<^verbatim>\<open>type\<close> is a tag name, a function component, a class component
  (\<^verbatim>\<open>type.prototype.isReactComponent\<close> is truthy) or any other value.  A function or
  class carries its source text (what \<^verbatim>\<open>${node.type}\<close> prints) and its behaviour with
  the node's props already supplied: \<^verbatim>\<open>node.type(node.props, c)\<close> is \<open>f c\<close> and
  \<^verbatim>\<open>new node.type(node.props, c)\<close> is \<open>new c\<close>.  An instance is its state, its
  optional \<^verbatim>\<open>componentWillMount\<close> and its \<^verbatim>\<open>render\<close>.  Contexts \<open>'c\<close> and states
  \<open>'s\<close> are left abstract.
\<close>

datatype ('c, 's) node =
    Prim prim
  | Array "('c, 's) node list"
  | Closure
  | Object ref "('c, 's) vtype" bool rawhtml "('c, 's) node" "(string \<times> string) list"
and ('c, 's) vtype =
    TString string
  | TFunction string "'c \<Rightarrow> ('c, 's) result"
  | TClass string "'c \<Rightarrow> ('c, 's) constructed"
  | TOther string
and ('c, 's) result = Throws error | Returns "('c, 's) node"
and ('c, 's) constructed =
    CtorThrows error
  | Instance 's "('s \<Rightarrow> 's hook_result) option" "'s \<Rightarrow> ('c, 's) result"

subsection \<open>Truthiness, \<^verbatim>\<open>typeof\<close> and string conversion\<close>

fun truthy_prim :: "prim \<Rightarrow> bool" where
  "truthy_prim Undefined = False"
| "truthy_prim Null = False"
| "truthy_prim (Boolean b) = b"
| "truthy_prim (Number n) = (n \<noteq> 0)"
| "truthy_prim NaN = False"
| "truthy_prim (String s) = (s \<noteq> [])"

fun truthy :: "('c, 's) node \<Rightarrow> bool" where
  "truthy (Prim p) = truthy_prim p"
| "truthy _ = True"

fun truthy_raw :: "rawhtml \<Rightarrow> bool" where
  "truthy_raw (RawPrim p) = truthy_prim p"
| "truthy_raw (RawObject h) = True"

datatype js_type = TyUndefined | TyBoolean | TyNumber | TyString | TyObject | TyFunction

fun typeof_prim :: "prim \<Rightarrow> js_type" where
  "typeof_prim Undefined = TyUndefined"
| "typeof_prim Null = TyObject"
| "typeof_prim (Boolean b) = TyBoolean"
| "typeof_prim (Number n) = TyNumber"
| "typeof_prim NaN = TyNumber"
| "typeof_prim (String s) = TyString"

fun typeof :: "('c, 's) node \<Rightarrow> js_type" where
  "typeof (Prim p) = typeof_prim p"
| "typeof (Array xs) = TyObject"
| "typeof Closure = TyFunction"
| "typeof (Object r ty marker raw children attrs) = TyObject"

text \<open>Decimal digits of a natural number, most significant first.\<close>

definition digit_char :: "nat \<Rightarrow> char" where
  "digit_char d = ''0123456789'' ! d"

fun digits :: "nat \<Rightarrow> string" where
  "digits n =
     (if n < 10 then [digit_char n]
      else digits (n div 10) @ [digit_char (n mod 10)])"

text \<open>\<^verbatim>\<open>String(v)\<close> for a primitive; on a number it is \<^verbatim>\<open>v.toString()\<close>.\<close>

fun toString :: "prim \<Rightarrow> string" where
  "toString Undefined = ''undefined''"
| "toString Null = ''null''"
| "toString (Boolean b) = (if b then ''true'' else ''false'')"
| "toString (Number n) = (if n < 0 then CHR ''-'' # digits (nat (- n)) else digits (nat n))"
| "toString NaN = ''NaN''"
| "toString (String s) = s"

text \<open>What the template literal \<^verbatim>\<open>${node.type}\<close> prints.\<close>

fun type_string :: "('c, 's) vtype \<Rightarrow> string" where
  "type_string (TString s) = s"
| "type_string (TFunction src f) = src"
| "type_string (TClass src new) = src"
| "type_string (TOther d) = d"

fun node_type_string :: "('c, 's) node \<Rightarrow> string" where
  "node_type_string (Object r ty marker raw children attrs) = type_string ty"
| "node_type_string _ = ''undefined''"

text \<open>\<^verbatim>\<open>typeof node.type === "string"\<close> and the truthiness of \<^verbatim>\<open>node.$$typeof\<close>.\<close>

fun type_is_string :: "('c, 's) node \<Rightarrow> bool" where
  "type_is_string (Object r (TString s) marker raw children attrs) = True"
| "type_is_string _ = False"

fun has_marker :: "('c, 's) node \<Rightarrow> bool" where
  "has_marker (Object r ty marker raw children attrs) = marker"
| "has_marker _ = False"

text \<open>\<^verbatim>\<open>dangerouslySetInnerHTML.__html\<close>; a primitive has no such property.\<close>

fun html_field :: "rawhtml \<Rightarrow> prim" where
  "html_field (RawObject h) = h"
| "html_field (RawPrim p) = Undefined"

text \<open>\<^verbatim>\<open>v || ""\<close>, as the text of a segment.\<close>

definition or_empty :: "prim \<Rightarrow> string" where
  "or_empty v = (if truthy_prim v then toString v else '''')"

section \<open>The sequence and the other collaborators\<close>

text \<open>
  Events of a render pass that are not output: calls into user code.  They are recorded
  with the number of event-loop turns that the pass has pumped so far, so that
  statements about what runs, and when, can be made.
\<close>

datatype event = Called ref | Constructed ref | WillMount ref | Rendered ref

text \<open>
  The state threaded through a pass: the segments of the sequence in output order, the
  sequence's cache, and the record of events with the count of event-loop turns.
\<close>

record pass =
  segments :: "string list"
  cache :: "(ref \<times> string list) list"
  trace :: "(nat \<times> event) list"
  turns :: nat

text \<open>
  A call returns a new state, throws, or never returns (\<open>None\<close>).
\<close>

type_synonym outcome = "(error + pass) option"

definition returns :: "pass \<Rightarrow> outcome" where
  "returns seq = Some (Inr seq)"

definition throw :: "error \<Rightarrow> outcome" where
  "throw e = Some (Inl e)"

text \<open>Statement sequencing: what follows runs only if the first part returned.\<close>

definition and_then :: "outcome \<Rightarrow> (pass \<Rightarrow> outcome) \<Rightarrow> outcome" where
  "and_then m f =
     (case m of None \<Rightarrow> None | Some (Inl e) \<Rightarrow> Some (Inl e) | Some (Inr seq) \<Rightarrow> f seq)"

definition record_event :: "event \<Rightarrow> pass \<Rightarrow> pass" where
  "record_event ev seq = seq\<lparr>trace := trace seq @ [(turns seq, ev)]\<rparr>"

definition elapse :: "nat \<Rightarrow> pass \<Rightarrow> pass" where
  "elapse n seq = seq\<lparr>turns := turns seq + n\<rparr>"

text \<open>
  The sequence object \<^verbatim>\<open>seq\<close> that \<^verbatim>\<open>traverse.js\<close> is given is not defined in
  \<^verbatim>\<open>traverse.js\<close>.  The specification says that the final output is the
  concatenation of all segment sources in registration order, regardless of when each
  is realized; accordingly the three operations below realize every source where it is
  registered, and a producer is run where the source calls \<^verbatim>\<open>seq.emit\<close>,
  \<^verbatim>\<open>seq.delegate\<close> or \<^verbatim>\<open>seq.delegateCached\<close> with it.
\<close>

text \<open>
  Modelled from the spec: \<^verbatim>\<open>seq.emit\<close>, which is missing from the sources, appends a
  text-producing unit; the model appends the text the unit produces as one segment.
\<close>

definition emit :: "pass \<Rightarrow> string \<Rightarrow> pass" where
  "emit seq text = seq\<lparr>segments := segments seq @ [text]\<rparr>"

text \<open>
  Modelled from the spec: \<^verbatim>\<open>seq.delegate\<close>, which is missing from the sources, appends
  a nested sequence whose contents are realized by invoking the producer; the segments
  the producer appends take their place after those registered before.
\<close>

definition delegate :: "pass \<Rightarrow> (pass \<Rightarrow> outcome) \<Rightarrow> outcome" where
  "delegate seq producer =
     and_then (producer (seq\<lparr>segments := []\<rparr>))
       (\<lambda>sub. returns (sub\<lparr>segments := segments seq @ segments sub\<rparr>))"

text \<open>The identity of a node: only objects have one.\<close>

fun identity :: "('c, 's) node \<Rightarrow> ref option" where
  "identity (Object r ty marker raw children attrs) = Some r"
| "identity _ = None"

text \<open>
  Modelled from the spec: \<^verbatim>\<open>seq.delegateCached\<close>, which is missing from the sources, is
  \<open>delegate\<close> keyed by the identity of the node (reference equality): if this node
  reference was realized before in the pass the stored result is reused and the
  producer is not invoked; otherwise the producer's segments are stored under the
  reference.  The cache lives as long as the pass.
\<close>

definition delegateCached ::
  "pass \<Rightarrow> ('c, 's) node \<Rightarrow> (pass \<Rightarrow> ('c, 's) node \<Rightarrow> outcome) \<Rightarrow> outcome" where
  "delegateCached seq node producer =
     (case identity node of
        None \<Rightarrow> delegate seq (\<lambda>sub. producer sub node)
      | Some r \<Rightarrow>
          (case map_of (cache seq) r of
             Some segs \<Rightarrow> returns (seq\<lparr>segments := segments seq @ segs\<rparr>)
           | None \<Rightarrow>
               and_then (producer (seq\<lparr>segments := []\<rparr>) node)
                 (\<lambda>sub. returns (sub\<lparr>segments := segments seq @ segments sub,
                                       cache := (r, segments sub) # cache sub\<rparr>))))"

text \<open>
  The modules \<^verbatim>\<open>traverse.js\<close> requires, as parameters: \<^verbatim>\<open>htmlStringEscape\<close> of
  \<^verbatim>\<open>./util\<close>, \<^verbatim>\<open>renderAttrs\<close> of \<^verbatim>\<open>./attrs\<close> (given the props other than
  \<^verbatim>\<open>children\<close> and \<^verbatim>\<open>dangerouslySetInnerHTML\<close>, which it skips), \<^verbatim>\<open>REACT_ID\<close> of
  \<^verbatim>\<open>../symbols\<close>, and \<^verbatim>\<open>getContext\<close> and \<^verbatim>\<open>getChildContext\<close> of \<^verbatim>\<open>./context\<close>.
  The second argument of \<^verbatim>\<open>getChildContext\<close> is what a function component returned
  (\<open>Inl\<close>) or the state of a class instance (\<open>Inr\<close>).
\<close>

record ('c, 's) modules =
  htmlStringEscape :: "string \<Rightarrow> string"
  renderAttrs :: "(string \<times> string) list \<Rightarrow> string"
  REACT_ID :: string
  getContext :: "('c, 's) vtype \<Rightarrow> 'c \<Rightarrow> 'c"
  getChildContext :: "('c, 's) vtype \<Rightarrow> ('c, 's) node + 's \<Rightarrow> 'c \<Rightarrow> 'c"

subsection \<open>Waiting for the hook: \<^verbatim>\<open>deasync.loopWhile\<close>\<close>

text \<open>
  \<^verbatim>\<open>promise.then(() => {done = true;})\<close> registers a fulfilment callback only.  One
  turn \<open>n\<close> of the event loop runs it if the promise is fulfilled on that turn; a
  rejection runs no callback of \<^verbatim>\<open>evalComponent\<close>.
\<close>

definition then_callback :: "'s promise \<Rightarrow> nat \<Rightarrow> bool \<Rightarrow> bool" where
  "then_callback promise n done =
     (case promise of Fulfils k g \<Rightarrow> done \<or> k = n | _ \<Rightarrow> done)"

text \<open>
  \<^verbatim>\<open>require('deasync').loopWhile(function(){return !done;})\<close> runs turns of the event
  loop while the predicate holds.  Its result here is the number of turns it ran; it
  has no result when \<^verbatim>\<open>done\<close> never becomes true.
\<close>

partial_function (option) loopWhile :: "'s promise option \<Rightarrow> nat \<Rightarrow> bool \<Rightarrow> nat option" where
  "loopWhile promise n done =
     (if \<not> done
      then loopWhile promise (Suc n)
             (case promise of None \<Rightarrow> done | Some p \<Rightarrow> then_callback p n done)
      else Some n)"

section \<open>The traversal\<close>

text \<open>
  The recursion of the traversal follows the tree: an element of an array, the
  \<^verbatim>\<open>children\<close> prop of an object, what a function component returns and what a class
  instance renders are all smaller than the node they come from.
\<close>

inductive child_of :: "('c, 's) node \<Rightarrow> ('c, 's) node \<Rightarrow> bool" where
  element: "x \<in> set xs \<Longrightarrow> child_of x (Array xs)"
| children: "child_of ch (Object r ty m raw ch attrs)"
| returned: "f c = Returns n \<Longrightarrow> child_of n (Object r (TFunction src f) m raw ch attrs)"
| rendered: "new c = Instance s0 hook render \<Longrightarrow> render s = Returns n
    \<Longrightarrow> child_of n (Object r (TClass src new) m raw ch attrs)"

inductive_cases child_of_PrimE: "child_of x (Prim p)"
inductive_cases child_of_ArrayE: "child_of x (Array xs)"
inductive_cases child_of_ClosureE: "child_of x Closure"
inductive_cases child_of_ObjectE: "child_of x (Object r ty m raw ch attrs)"

lemma child_of_induct_all:
  fixes n :: "('c, 's) node"
  assumes step: "\<And>x :: ('c, 's) node. (\<And>y. child_of y x \<Longrightarrow> P y) \<Longrightarrow> P x"
  shows "P n"
proof -
  have "P n"
    and "(\<forall>src f c m. ty = TFunction src f \<longrightarrow> f c = Returns m \<longrightarrow> P m)
       \<and> (\<forall>src new c s0 hook render s m. ty = TClass src new
            \<longrightarrow> new c = Instance s0 hook render \<longrightarrow> render s = Returns m \<longrightarrow> P m)"
    and "\<forall>m. res = Returns m \<longrightarrow> P m"
    and "\<forall>s0 hook render s m. con = Instance s0 hook render \<longrightarrow> render s = Returns m \<longrightarrow> P m"
    for ty :: "('c, 's) vtype" and res :: "('c, 's) result" and con :: "('c, 's) constructed"
  proof (induction n and ty and res and con)
    case (Prim p)
    show ?case by (rule step) (erule child_of_PrimE)
  next
    case (Array xs)
    show ?case by (rule step) (erule child_of_ArrayE, rule Array)
  next
    case Closure
    show ?case by (rule step) (erule child_of_ClosureE)
  next
    case (Object r ty m raw ch attrs)
    show ?case by (rule step) (erule child_of_ObjectE; use Object in blast)
  next
    case (TFunction src f)
    then show ?case by (metis rangeI vtype.inject(2) vtype.distinct(7))
  next
    case (TClass src new)
    then show ?case by (metis rangeI vtype.inject(3) vtype.distinct(7))
  next
    case (Instance s0 hook render)
    then show ?case by (metis rangeI constructed.inject)
  qed simp_all
  then show ?thesis by simp
qed

lemma child_of_nth:
  "idx < length children \<Longrightarrow> children ! idx = x \<Longrightarrow> child_of x (Array children)"
  by (auto intro: child_of.element)

lemma wf_child_of: "wf {(x :: ('c, 's) node, y). child_of x y}"
  unfolding wf_def
proof (intro allI impI)
  fix P :: "('c, 's) node \<Rightarrow> bool" and x :: "('c, 's) node"
  assume "\<forall>x. (\<forall>y. (y, x) \<in> {(x, y). child_of x y} \<longrightarrow> P y) \<longrightarrow> P x"
  then have "\<And>x. (\<And>y. child_of y x \<Longrightarrow> P y) \<Longrightarrow> P x" by simp
  then show "P x" by (rule child_of_induct_all)
qed

lemma and_then_cong [fundef_cong]:
  "m = m' \<Longrightarrow> (\<And>seq. m' = Some (Inr seq) \<Longrightarrow> f seq = g seq) \<Longrightarrow> and_then m f = and_then m' g"
  by (auto simp: and_then_def split: option.splits sum.splits)

lemma delegate_cong [fundef_cong]:
  "seq = seq' \<Longrightarrow> (\<And>sub. f sub = g sub) \<Longrightarrow> delegate seq f = delegate seq' g"
  by (simp add: delegate_def)

lemma delegateCached_cong [fundef_cong]:
  "seq = seq' \<Longrightarrow> node = node' \<Longrightarrow> (\<And>sub. f sub node' = g sub node')
     \<Longrightarrow> delegateCached seq node f = delegateCached seq' node' g"
  by (simp add: delegateCached_def delegate_def split: option.splits)

text \<open>\<^verbatim>\<open>throw new TypeError(`Unknown node of type: ${node.type}`)\<close>\<close>

definition unknown_node :: "('c, 's) node \<Rightarrow> outcome" where
  "unknown_node node = throw (TypeError (''Unknown node of type: '' @ node_type_string node))"

text \<open>
  The five functions of \<^verbatim>\<open>traverse.js\<close>; \<open>renderChildrenArray_for\<close> is the \<^verbatim>\<open>for\<close>
  loop of \<^verbatim>\<open>renderChildrenArray\<close> with its index.  \<^verbatim>\<open>renderNode\<close> and
  \<^verbatim>\<open>evalComponent\<close> read \<^verbatim>\<open>node.props\<close> and call \<^verbatim>\<open>node.type\<close>; on a value that is
  not an object, which \<^verbatim>\<open>traverse\<close> never passes them, the runtime throws a
  \<^verbatim>\<open>TypeError\<close>, as it does on a \<^verbatim>\<open>type\<close> that cannot be called.
\<close>

function
  renderChildrenArray_for ::
    "('c, 's) modules \<Rightarrow> pass \<Rightarrow> ('c, 's) node list \<Rightarrow> 'c \<Rightarrow> nat \<Rightarrow> outcome"
and renderChildrenArray ::
    "('c, 's) modules \<Rightarrow> pass \<Rightarrow> ('c, 's) node list \<Rightarrow> 'c \<Rightarrow> outcome"
and renderChildren ::
    "('c, 's) modules \<Rightarrow> pass \<Rightarrow> ('c, 's) node \<Rightarrow> 'c \<Rightarrow> outcome"
and renderNode ::
    "('c, 's) modules \<Rightarrow> pass \<Rightarrow> ('c, 's) node \<Rightarrow> 'c \<Rightarrow> outcome"
and evalComponent ::
    "('c, 's) modules \<Rightarrow> pass \<Rightarrow> ('c, 's) node \<Rightarrow> 'c \<Rightarrow> outcome"
and traverse ::
    "('c, 's) modules \<Rightarrow> pass \<Rightarrow> ('c, 's) node \<Rightarrow> 'c \<Rightarrow> outcome"
where
  "renderChildrenArray_for E seq children context idx =
     (if idx < length children then
        and_then
          (let child = children ! idx in
           case child of
             Array elems \<Rightarrow> renderChildrenArray E seq elems context
           | _ \<Rightarrow> traverse E seq child context)
          (\<lambda>seq'. renderChildrenArray_for E seq' children context (idx + 1))
      else returns seq)"
| "renderChildrenArray E seq children context = renderChildrenArray_for E seq children context 0"
| "renderChildren E seq children context =
     (if \<not> truthy children then returns seq
      else (case children of
              Array elems \<Rightarrow> renderChildrenArray E seq elems context
            | _ \<Rightarrow> traverse E seq children context))"
| "renderNode E seq node context =
     (case node of
        Object r ty marker raw children attrs \<Rightarrow>
          (let seq1 = emit seq (''<'' @ type_string ty);
               seq2 = emit seq1 (renderAttrs E attrs);
               seq3 = emit seq2 (REACT_ID E);
               seq4 = emit seq3 ''>''
           in and_then
                (if truthy_raw raw
                 then returns (emit seq4 (or_empty (html_field raw)))
                 else delegate seq4 (\<lambda>sub. renderChildren E sub children context))
                (\<lambda>seq5. returns (emit seq5 (''</'' @ type_string ty @ ''>''))))
      | _ \<Rightarrow> throw (TypeError ''Cannot read property of undefined''))"
| "evalComponent E seq node context =
     (case node of
        Object r ty marker raw children attrs \<Rightarrow>
          (let componentContext = getContext E ty context in
           case ty of
             TFunction src f \<Rightarrow>
               (case f componentContext of
                  Throws e \<Rightarrow> throw e
                | Returns instance \<Rightarrow>
                    (let childContext = getChildContext E ty (Inl instance) context
                     in traverse E (record_event (Called r) seq) instance childContext))
           | TClass src new \<Rightarrow>
               (case new componentContext of
                  CtorThrows e \<Rightarrow> throw e
                | Instance s0 hook render \<Rightarrow>
                    (let seq1 = record_event (Constructed r) seq in
                     case (case hook of
                             None \<Rightarrow> (seq1, HookReturns s0 NotThenable)
                           | Some componentWillMount \<Rightarrow>
                               (record_event (WillMount r) seq1, componentWillMount s0)) of
                       (seq2, HookThrows e) \<Rightarrow> throw e
                     | (seq2, HookReturns s1 res) \<Rightarrow>
                         (let promise = (case res of Thenable p \<Rightarrow> Some p | NotThenable \<Rightarrow> None);
                              done = (case promise of Some p \<Rightarrow> False | None \<Rightarrow> True)
                          in case loopWhile promise 0 done of
                               None \<Rightarrow> None
                             | Some n \<Rightarrow>
                                 (let seq3 = elapse n seq2;
                                      s2 = (case promise of Some (Fulfils k g) \<Rightarrow> g s1 | _ \<Rightarrow> s1);
                                      childContext = getChildContext E ty (Inr s2) context
                                  in case render s2 of
                                       Throws e \<Rightarrow> throw e
                                     | Returns tree \<Rightarrow>
                                         traverse E (record_event (Rendered r) seq3) tree
                                           childContext))))
           | _ \<Rightarrow> throw (TypeError ''node.type is not a function''))
      | _ \<Rightarrow> throw (TypeError ''node.type is not a function''))"
| "traverse E seq node context =
     (if \<not> truthy node then returns seq
      else (case typeof node of
              TyString \<Rightarrow>
                returns (emit seq (htmlStringEscape E (case node of Prim p \<Rightarrow> toString p | _ \<Rightarrow> [])))
            | TyNumber \<Rightarrow>
                returns (emit seq (case node of Prim p \<Rightarrow> toString p | _ \<Rightarrow> []))
            | TyObject \<Rightarrow>
                (if type_is_string node
                 then delegateCached seq node (\<lambda>seq' node'. renderNode E seq' node' context)
                 else if has_marker node
                 then delegateCached seq node (\<lambda>seq' node'. evalComponent E seq' node' context)
                 else unknown_node node)
            | _ \<Rightarrow> unknown_node node))"
  by pat_completeness auto
termination
proof (relation "inv_image ({(x, y). child_of x y} <*lex*> less_than)
   (case_sum
      (case_sum (\<lambda>(E, seq, children, context, idx). (Array children, length children - idx))
         (case_sum (\<lambda>(E, seq, children, context). (Array children, Suc (length children)))
            (\<lambda>(E, seq, children, context).
               (children, 2 + (case children of Array xs \<Rightarrow> length xs | _ \<Rightarrow> 0)))))
      (case_sum (\<lambda>(E, seq, node, context). (node, 0))
         (case_sum (\<lambda>(E, seq, node, context). (node, 0))
            (\<lambda>(E, seq, node, context). (node, 1)))))", goal_cases)
  case 1
  show ?case by (intro wf_inv_image wf_lex_prod wf_child_of wf_less_than)
qed (auto intro: child_of.intros child_of_nth)

declare renderChildrenArray_for.simps [simp del] renderChildrenArray.simps [simp del]
  renderChildren.simps [simp del] renderNode.simps [simp del] evalComponent.simps [simp del]
  traverse.simps [simp del]

section \<open>Properties\<close>

subsection \<open>Concrete collaborators and the fresh pass\<close>

definition plain_modules :: "(unit, int) modules" where
  "plain_modules =
     \<lparr>htmlStringEscape = (\<lambda>s. s), renderAttrs = (\<lambda>attrs. []),
      REACT_ID = '' data-react-id'', getContext = (\<lambda>ty c. c),
      getChildContext = (\<lambda>ty i c. c)\<rparr>"

definition fresh_pass :: pass where
  "fresh_pass = \<lparr>segments = [], cache = [], trace = [], turns = 0\<rparr>"

subsection \<open>Sequencing\<close>

lemma and_then_returns [simp]: "and_then (returns seq) f = f seq"
  by (simp add: and_then_def returns_def)

lemma and_then_throw [simp]: "and_then (throw e) f = throw e"
  by (simp add: and_then_def throw_def)

lemma and_then_None [simp]: "and_then None f = None"
  by (simp add: and_then_def)

lemma and_then_assoc:
  "and_then (and_then m f) g = and_then m (\<lambda>seq. and_then (f seq) g)"
  by (simp add: and_then_def split: option.splits sum.splits)

subsection \<open>Numeric leaves\<close>

text \<open>
  Claim C2 says that every numeric leaf \<open>n\<close> appends its decimal string as one segment.
  The guard \<^verbatim>\<open>if (!node) { return; }\<close>, commented as being for a \<^verbatim>\<open>null\<close> returned by
  \<^verbatim>\<open>render\<close>, also holds for the number \<open>0\<close>: the traversal returns with the sequence
  unchanged, although the decimal string of \<open>0\<close> is \<open>''0''\<close>.
\<close>

theorem C2_zero_is_dropped:
  "traverse E seq (Prim (Number 0)) context = returns seq
   \<and> toString (Number 0) = ''0''
   \<and> traverse E seq (Prim (Number 0)) context \<noteq> returns (emit seq (toString (Number 0)))"
proof -
  have "segments (emit seq (toString (Number 0))) \<noteq> segments seq"
    by (simp add: emit_def)
  then have "emit seq (toString (Number 0)) \<noteq> seq"
    by auto
  then show ?thesis
    by (simp add: traverse.simps returns_def digit_char_def)
qed

text \<open>Every other integer is appended in decimal.\<close>

lemma traverse_nonzero_number:
  "n \<noteq> 0 \<Longrightarrow>
     traverse E seq (Prim (Number n)) context = returns (emit seq (toString (Number n)))"
  by (simp add: traverse.simps)

subsection \<open>Unknown nodes\<close>

text \<open>
  The shapes the specification recognizes: absent, \<^verbatim>\<open>null\<close> or \<^verbatim>\<open>false\<close>; a string; a
  number; an element (the tag is a string); a component reference (the marker
  \<^verbatim>\<open>$$typeof\<close> is set).
\<close>

fun recognized :: "('c, 's) node \<Rightarrow> bool" where
  "recognized (Prim Undefined) = True"
| "recognized (Prim Null) = True"
| "recognized (Prim (Boolean b)) = (b = False)"
| "recognized (Prim (Number n)) = True"
| "recognized (Prim NaN) = True"
| "recognized (Prim (String s)) = True"
| "recognized (Array xs) = False"
| "recognized Closure = False"
| "recognized (Object r ty marker raw children attrs) =
     (type_is_string (Object r ty marker raw children attrs) \<or> marker)"

text \<open>
  Claim C6: a node of no recognized shape makes \<^verbatim>\<open>traverse\<close> throw the \<^verbatim>\<open>TypeError\<close>
  whose message carries \<^verbatim>\<open>node.type\<close>, so that the call yields no sequence; an absent,
  \<^verbatim>\<open>null\<close> or \<^verbatim>\<open>false\<close> node returns with the sequence unchanged.
\<close>

theorem C6_unknown_node_throws:
  "(\<not> recognized node \<longrightarrow>
      traverse E seq node context =
        throw (TypeError (''Unknown node of type: '' @ node_type_string node)))
   \<and> traverse E seq (Prim Undefined) context = returns seq
   \<and> traverse E seq (Prim Null) context = returns seq
   \<and> traverse E seq (Prim (Boolean False)) context = returns seq"
proof -
  have "traverse E seq node context = unknown_node node" if "\<not> recognized node"
    using that by (cases node rule: recognized.cases) (auto simp add: traverse.simps)
  then show ?thesis
    by (simp add: traverse.simps unknown_node_def)
qed

theorem C6_unknown_node_throws_witness:
  "traverse plain_modules fresh_pass (Prim (Boolean True)) () =
     throw (TypeError ''Unknown node of type: undefined'')
   \<and> traverse plain_modules fresh_pass
       (Object 7 (TOther ''42'') False (RawPrim Undefined) (Prim Undefined) []) () =
     throw (TypeError ''Unknown node of type: 42'')"
  using C6_unknown_node_throws [of "Prim (Boolean True)" plain_modules fresh_pass "()"]
    C6_unknown_node_throws
      [of "Object 7 (TOther ''42'') False (RawPrim Undefined) (Prim Undefined) []"
        plain_modules fresh_pass "()"]
  by simp

subsection \<open>Lists of children\<close>

text \<open>
  Dispatching each element of a list in order, as the specification words it: a nested
  list is recursed into, any other element is dispatched on its own, and the first
  failure ends the loop.
\<close>

fun dispatch_each ::
  "('c, 's) modules \<Rightarrow> pass \<Rightarrow> ('c, 's) node list \<Rightarrow> 'c \<Rightarrow> outcome" where
  "dispatch_each E seq [] context = returns seq"
| "dispatch_each E seq (child # rest) context =
     and_then
       (case child of
          Array elems \<Rightarrow> renderChildrenArray E seq elems context
        | _ \<Rightarrow> traverse E seq child context)
       (\<lambda>seq'. dispatch_each E seq' rest context)"

text \<open>The leaves of a nested list, depth first and left to right.\<close>

fun flatten :: "('c, 's) node list \<Rightarrow> ('c, 's) node list" where
  "flatten [] = []"
| "flatten (Array elems # rest) = flatten elems @ flatten rest"
| "flatten (leaf # rest) = leaf # flatten rest"

fun traverse_each ::
  "('c, 's) modules \<Rightarrow> pass \<Rightarrow> ('c, 's) node list \<Rightarrow> 'c \<Rightarrow> outcome" where
  "traverse_each E seq [] context = returns seq"
| "traverse_each E seq (leaf # rest) context =
     and_then (traverse E seq leaf context) (\<lambda>seq'. traverse_each E seq' rest context)"

text \<open>The \<^verbatim>\<open>for\<close> loop from index \<open>idx\<close> handles the elements from \<open>idx\<close> on, in order.\<close>

lemma renderChildrenArray_for_drop:
  "renderChildrenArray_for E seq children context idx =
     dispatch_each E seq (drop idx children) context"
proof (induction "length children - idx" arbitrary: idx seq)
  case 0
  then show ?case
    by (simp add: renderChildrenArray_for.simps)
next
  case (Suc d)
  then have lt: "idx < length children" and d: "d = length children - Suc idx"
    by simp_all
  have step: "drop idx children = children ! idx # drop (Suc idx) children"
    using lt by (simp add: Cons_nth_drop_Suc)
  show ?case
    using lt Suc.hyps(1) [OF d]
    by (subst renderChildrenArray_for.simps) (simp add: step Let_def)
qed

lemma renderChildrenArray_dispatch:
  "renderChildrenArray E seq children context = dispatch_each E seq children context"
  by (simp add: renderChildrenArray.simps renderChildrenArray_for_drop)

lemma traverse_each_append:
  "traverse_each E seq (xs @ ys) context =
     and_then (traverse_each E seq xs context) (\<lambda>seq'. traverse_each E seq' ys context)"
  by (induction xs arbitrary: seq) (simp_all add: and_then_assoc)

lemma renderChildrenArray_flatten:
  "renderChildrenArray E seq children context =
     traverse_each E seq (flatten children) context"
proof (induction children arbitrary: seq rule: flatten.induct)
  case 1
  show ?case
    by (simp add: renderChildrenArray_dispatch)
next
  case (2 elems rest)
  then show ?case
    by (simp add: renderChildrenArray_dispatch traverse_each_append)
qed (simp_all add: renderChildrenArray_dispatch)

text \<open>
  Claim C3 says that a list passed to the dispatcher's entry point is dispatched element
  by element rather than the pass failing.  \<^verbatim>\<open>traverse\<close> has no case for an array: an
  array is truthy, its \<^verbatim>\<open>typeof\<close> is \<^verbatim>\<open>"object"\<close>, it has neither a string \<^verbatim>\<open>type\<close> nor
  \<^verbatim>\<open>$$typeof\<close>, and the \<^verbatim>\<open>TypeError\<close> is thrown.
\<close>

theorem C3_array_at_entry_counterexample:
  "traverse plain_modules fresh_pass (Array [Prim (String ''a''), Prim (String ''b'')]) () =
     throw (TypeError ''Unknown node of type: undefined'')
   \<and> dispatch_each plain_modules fresh_pass [Prim (String ''a''), Prim (String ''b'')] () =
     returns (fresh_pass\<lparr>segments := [''a'', ''b'']\<rparr>)"
  by (simp add: traverse.simps unknown_node_def plain_modules_def fresh_pass_def emit_def)

text \<open>
  Claim C3 as amended: a list that is the \<^verbatim>\<open>children\<close> prop of an element
  (\<^verbatim>\<open>renderChildren\<close>) is dispatched element by element in order, nested lists being
  recursed into; a list passed to \<^verbatim>\<open>traverse\<close> itself fails with the \<^verbatim>\<open>TypeError\<close>.
\<close>

theorem C3_children_dispatched_in_order:
  "traverse E seq (Array children) context =
     throw (TypeError ''Unknown node of type: undefined'')
   \<and> renderChildren E seq (Array children) context = dispatch_each E seq children context"
  by (simp add: traverse.simps unknown_node_def renderChildren.simps
      renderChildrenArray_dispatch)

text \<open>
  Claim C4: the children list of an element is rendered as the traversal, in order, of
  its depth-first, left-to-right flattening; \<open>[[A, B], C]\<close> renders \<open>A\<close>, \<open>B\<close>, \<open>C\<close>; an
  empty or absent list renders nothing.
\<close>

theorem C4_children_flattened_preorder:
  "renderChildren E seq (Array children) context =
     traverse_each E seq (flatten children) context
   \<and> renderChildren E seq
       (Array [Array [Prim (String ''A''), Prim (String ''B'')], Prim (String ''C'')]) context =
     returns (seq\<lparr>segments := segments seq @
       [htmlStringEscape E ''A'', htmlStringEscape E ''B'', htmlStringEscape E ''C'']\<rparr>)
   \<and> renderChildren E seq (Array []) context = returns seq
   \<and> renderChildren E seq (Prim Undefined) context = returns seq
   \<and> renderChildren E seq (Prim Null) context = returns seq"
proof -
  have general: "renderChildren E seq (Array children) context =
      traverse_each E seq (flatten children) context"
    for seq and children :: "('a, 'b) node list"
    by (simp add: renderChildren.simps renderChildrenArray_flatten)
  show ?thesis
    by (simp add: general) (simp add: renderChildren.simps traverse.simps emit_def)
qed

subsection \<open>Elements\<close>

text \<open>
  Claim C5: in an element exactly one of the two inner contents is produced.  When
  \<^verbatim>\<open>dangerouslySetInnerHTML\<close> is set (truthy, as \<^verbatim>\<open>renderNode\<close> tests it), its
  \<^verbatim>\<open>__html\<close> is emitted as it is, without \<^verbatim>\<open>htmlStringEscape\<close>, and the result does not
  depend on \<^verbatim>\<open>children\<close>; otherwise the children are rendered, by \<^verbatim>\<open>renderChildren\<close>,
  with the context \<^verbatim>\<open>renderNode\<close> was given.
\<close>

theorem C5_raw_html_or_children:
  "(truthy_raw raw \<longrightarrow>
      renderNode E seq (Object r (TString tag) marker raw children attrs) context =
        returns (seq\<lparr>segments := segments seq @
          [''<'' @ tag, renderAttrs E attrs, REACT_ID E, ''>'', or_empty (html_field raw),
           ''</'' @ tag @ ''>'']\<rparr>))
   \<and> (\<not> truthy_raw raw \<longrightarrow>
      renderNode E seq (Object r (TString tag) marker raw children attrs) context =
        and_then
          (delegate
             (seq\<lparr>segments := segments seq @
                [''<'' @ tag, renderAttrs E attrs, REACT_ID E, ''>'']\<rparr>)
             (\<lambda>sub. renderChildren E sub children context))
          (\<lambda>seq5. returns (emit seq5 (''</'' @ tag @ ''>''))))"
proof (intro conjI impI)
  assume "truthy_raw raw"
  then show "renderNode E seq (Object r (TString tag) marker raw children attrs) context =
      returns (seq\<lparr>segments := segments seq @
        [''<'' @ tag, renderAttrs E attrs, REACT_ID E, ''>'', or_empty (html_field raw),
         ''</'' @ tag @ ''>'']\<rparr>)"
    by (simp add: renderNode.simps emit_def and_then_def returns_def)
next
  assume "\<not> truthy_raw raw"
  then show "renderNode E seq (Object r (TString tag) marker raw children attrs) context =
      and_then
        (delegate
           (seq\<lparr>segments := segments seq @
              [''<'' @ tag, renderAttrs E attrs, REACT_ID E, ''>'']\<rparr>)
           (\<lambda>sub. renderChildren E sub children context))
        (\<lambda>seq5. returns (emit seq5 (''</'' @ tag @ ''>'')))"
    by (simp add: renderNode.simps emit_def)
qed

text \<open>
  With raw content, children that \<^verbatim>\<open>traverse\<close> would reject (\<^verbatim>\<open>true\<close>) are never looked
  at; without it, the child is rendered between the tags.
\<close>

theorem C5_raw_html_or_children_witness:
  "truthy_raw (RawObject (String ''<b>hi</b>''))
   \<and> renderNode plain_modules fresh_pass
       (Object 1 (TString ''div'') True (RawObject (String ''<b>hi</b>''))
          (Prim (Boolean True)) []) () =
     returns (fresh_pass\<lparr>segments :=
       [''<div'', [], '' data-react-id'', ''>'', ''<b>hi</b>'', ''</div>'']\<rparr>)
   \<and> \<not> truthy_raw (RawPrim Undefined)
   \<and> renderNode plain_modules fresh_pass
       (Object 1 (TString ''p'') True (RawPrim Undefined) (Prim (String ''x'')) []) () =
     returns (fresh_pass\<lparr>segments := [''<p'', [], '' data-react-id'', ''>'', ''x'', ''</p>'']\<rparr>)"
  using C5_raw_html_or_children
      [of "RawObject (String ''<b>hi</b>'')" plain_modules fresh_pass 1 "''div''" True
        "Prim (Boolean True)" "[]" "()"]
    C5_raw_html_or_children
      [of "RawPrim Undefined" plain_modules fresh_pass 1 "''p''" True
        "Prim (String ''x'')" "[]" "()"]
  by (simp add: plain_modules_def fresh_pass_def or_empty_def delegate_def
      renderChildren.simps traverse.simps emit_def)

text \<open>
  Claim C9: when the raw-content object has no \<^verbatim>\<open>__html\<close>, or a falsy one, the inner
  content is the empty string, whatever the children are.
\<close>

theorem C9_falsy_html_is_empty:
  "\<not> truthy_prim h \<Longrightarrow>
     renderNode E seq (Object r (TString tag) marker (RawObject h) children attrs) context =
       returns (seq\<lparr>segments := segments seq @
         [''<'' @ tag, renderAttrs E attrs, REACT_ID E, ''>'', [], ''</'' @ tag @ ''>'']\<rparr>)"
  by (simp add: renderNode.simps emit_def and_then_def returns_def or_empty_def)

theorem C9_falsy_html_is_empty_witness:
  "\<not> truthy_prim (Number 0)
   \<and> renderNode plain_modules fresh_pass
       (Object 1 (TString ''div'') True (RawObject (Number 0)) (Prim (String ''x'')) []) () =
     returns (fresh_pass\<lparr>segments := [''<div'', [], '' data-react-id'', ''>'', [], ''</div>'']\<rparr>)"
  using C9_falsy_html_is_empty
      [of "Number 0" plain_modules fresh_pass 1 "''div''" True "Prim (String ''x'')" "[]" "()"]
  by (simp add: plain_modules_def fresh_pass_def)

fun is_array :: "('c, 's) node \<Rightarrow> bool" where
  "is_array (Array xs) = True"
| "is_array _ = False"

text \<open>
  Claim C10: a \<^verbatim>\<open>children\<close> prop that is not an array is handed to \<^verbatim>\<open>traverse\<close> as it
  is, so the inner content of the element is the traversal of that one node.
\<close>

theorem C10_single_child_dispatched:
  assumes "\<not> is_array children"
  shows "renderChildren E seq children context = traverse E seq children context
    \<and> (\<not> truthy_raw raw \<longrightarrow>
        renderNode E seq (Object r (TString tag) marker raw children attrs) context =
          and_then
            (delegate
               (seq\<lparr>segments := segments seq @
                  [''<'' @ tag, renderAttrs E attrs, REACT_ID E, ''>'']\<rparr>)
               (\<lambda>sub. traverse E sub children context))
            (\<lambda>seq5. returns (emit seq5 (''</'' @ tag @ ''>''))))"
proof -
  have single: "renderChildren E sub children context = traverse E sub children context" for sub
    using assms by (cases children) (auto simp add: renderChildren.simps traverse.simps)
  then show ?thesis
    by (simp add: renderNode.simps emit_def)
qed

theorem C10_single_child_dispatched_witness:
  "\<not> is_array (Prim (String ''x'') :: (unit, int) node)
   \<and> renderChildren plain_modules fresh_pass (Prim (String ''x'')) () =
       returns (fresh_pass\<lparr>segments := [''x'']\<rparr>)
   \<and> renderNode plain_modules fresh_pass
       (Object 1 (TString ''p'') True (RawPrim Undefined) (Prim (String ''x'')) []) () =
     returns (fresh_pass\<lparr>segments := [''<p'', [], '' data-react-id'', ''>'', ''x'', ''</p>'']\<rparr>)"
  using C10_single_child_dispatched
      [of "Prim (String ''x'')" plain_modules fresh_pass "()" "RawPrim Undefined" 1 "''p''"
        True "[]"]
  by (simp add: plain_modules_def fresh_pass_def delegate_def traverse.simps emit_def)

subsection \<open>Components and the wait for the hook\<close>

text \<open>
  When the flag is set the loop returns at once; when it is not, the loop returns only
  for a promise that is fulfilled, after the turn that fulfils it.
\<close>

lemma loopWhile_done: "loopWhile promise n True = Some n"
  by (simp add: loopWhile.simps)

lemma loopWhile_fulfils:
  "n \<le> k \<Longrightarrow> loopWhile (Some (Fulfils k g)) n False = Some (Suc k)"
proof (induction "k - n" arbitrary: n)
  case 0
  then have "n = k" by simp
  then show ?case
    by (subst loopWhile.simps) (simp add: then_callback_def loopWhile_done)
next
  case (Suc d)
  then have "Suc n \<le> k" and "d = k - Suc n" and "k \<noteq> n" by simp_all
  then show ?case
    using Suc.hyps(1) [of "Suc n"]
    by (subst loopWhile.simps) (simp add: then_callback_def)
qed

lemma loopWhile_Some_done:
  "loopWhile promise n flag = Some m \<Longrightarrow>
     flag \<or> (\<exists>k g. promise = Some (Fulfils k g))"
proof (induction rule: loopWhile.raw_induct [rotated, consumes 1])
  case (1 loopWhile' promise n flag m)
  show ?case
  proof (cases flag)
    case True
    then show ?thesis by simp
  next
    case False
    with 1(2) have "loopWhile' promise (Suc n)
        (case promise of None \<Rightarrow> flag | Some p \<Rightarrow> then_callback p n flag) = Some m"
      by simp
    from 1(1) [OF this] False show ?thesis
      by (auto simp: then_callback_def split: option.splits promise.splits)
  qed
qed

lemma loopWhile_rejects:
  "loopWhile (Some (Rejects k e :: 's promise)) n False = None" (is "?wait = None")
proof (cases ?wait)
  case (Some m)
  from loopWhile_Some_done [OF this] show ?thesis by simp
qed simp

lemma loopWhile_never:
  "loopWhile (Some (NeverSettles :: 's promise)) n False = None" (is "?wait = None")
proof (cases ?wait)
  case (Some m)
  from loopWhile_Some_done [OF this] show ?thesis by simp
qed simp

text \<open>
  Claim C1 says that a rejection of the promise returned by \<^verbatim>\<open>componentWillMount\<close> makes
  the pass fail rather than hang.  \<^verbatim>\<open>evalComponent\<close> registers only a fulfilment
  callback, \<^verbatim>\<open>promise.then(() => {done = true;})\<close>, so after a rejection \<^verbatim>\<open>done\<close> stays
  false and \<^verbatim>\<open>loopWhile\<close> never returns: neither \<^verbatim>\<open>evalComponent\<close> nor the \<^verbatim>\<open>traverse\<close>
  that called it has an outcome, be it a value or an error.
\<close>

theorem C1_rejection_never_returns:
  "evalComponent E seq
     (Object r (TClass src (\<lambda>c. Instance s0 (Some (\<lambda>s. HookReturns (h s) (Thenable (Rejects k e)))) render))
        marker raw children attrs) context = None
   \<and> traverse E (seq\<lparr>cache := []\<rparr>)
     (Object r (TClass src (\<lambda>c. Instance s0 (Some (\<lambda>s. HookReturns (h s) (Thenable (Rejects k e)))) render))
        True raw children attrs) context = None"
  by (simp add: traverse.simps delegateCached_def evalComponent.simps loopWhile_rejects)

text \<open>
  Claim C7: when the hook returns a pending promise, \<^verbatim>\<open>render\<close> is called only after
  the turn on which the promise is fulfilled, however late that is, and on the state
  the hook (and the callbacks run until then) left; when the promise is never
  fulfilled, \<^verbatim>\<open>evalComponent\<close> does not return and \<^verbatim>\<open>render\<close> is not called at all.
\<close>

theorem C7_render_after_settlement:
  assumes "new (getContext E (TClass src new) context) = Instance s0 (Some componentWillMount) render"
    and "componentWillMount s0 = HookReturns s1 (Thenable p)"
  shows "case p of
      Fulfils k g \<Rightarrow>
        evalComponent E seq (Object r (TClass src new) marker raw children attrs) context =
          (case render (g s1) of
             Throws e \<Rightarrow> throw e
           | Returns tree \<Rightarrow>
               traverse E
                 (record_event (Rendered r) (elapse (Suc k)
                    (record_event (WillMount r) (record_event (Constructed r) seq))))
                 tree (getChildContext E (TClass src new) (Inr (g s1)) context))
    | _ \<Rightarrow> evalComponent E seq (Object r (TClass src new) marker raw children attrs) context = None"
  using assms
  by (cases p)
    (auto simp add: evalComponent.simps loopWhile_rejects loopWhile_never loopWhile_fulfils
      record_event_def split: result.splits)

text \<open>
  A class component whose hook adds \<open>5\<close> to the state and returns a promise that is
  fulfilled on turn \<open>2\<close>, a callback having added \<open>1\<close>; it renders its state.
\<close>

definition loader :: "(unit, int) node" where
  "loader =
     Object 1
       (TClass ''Loader''
          (\<lambda>c. Instance 0
             (Some (\<lambda>s. HookReturns (s + 5) (Thenable (Fulfils 2 (\<lambda>s. s + 1)))))
             (\<lambda>s. Returns (Prim (Number s)))))
       True (RawPrim Undefined) (Prim Undefined) []"

theorem C7_render_after_settlement_witness:
  "evalComponent plain_modules fresh_pass loader () =
     returns \<lparr>segments = [''6''], cache = [],
       trace = [(0, Constructed 1), (0, WillMount 1), (3, Rendered 1)], turns = 3\<rparr>"
  using C7_render_after_settlement [of "\<lambda>c. Instance 0
             (Some (\<lambda>s. HookReturns (s + 5) (Thenable (Fulfils 2 (\<lambda>s. s + 1)))))
             (\<lambda>s. Returns (Prim (Number s)))" plain_modules "''Loader''" "()" 0
          "\<lambda>s. HookReturns (s + 5) (Thenable (Fulfils 2 (\<lambda>s. s + 1)))"
          "\<lambda>s. Returns (Prim (Number s))" 5 "Fulfils 2 (\<lambda>s. s + 1)"
          fresh_pass 1 True "RawPrim Undefined" "Prim Undefined" "[]"]
  by (simp add: loader_def traverse.simps fresh_pass_def record_event_def elapse_def emit_def
      digit_char_def)

subsection \<open>The cache\<close>

text \<open>
  An entry of the cache, once present, is still present with the same segments after
  any call of the traversal that returns.
\<close>

definition keeps :: "ref \<Rightarrow> string list \<Rightarrow> pass \<Rightarrow> outcome \<Rightarrow> bool" where
  "keeps r segs seq out =
     (map_of (cache seq) r = Some segs \<longrightarrow>
        (\<forall>seq'. out = returns seq' \<longrightarrow> map_of (cache seq') r = Some segs))"

lemma keeps_returns: "cache seq' = cache seq \<Longrightarrow> keeps r segs seq (returns seq')"
  by (simp add: keeps_def returns_def)

lemma keeps_throw: "keeps r segs seq (throw e)"
  by (simp add: keeps_def returns_def throw_def)

lemma keeps_None: "keeps r segs seq None"
  by (simp add: keeps_def returns_def)

lemma keeps_cache_eq:
  assumes "cache seq = cache seq0"
  shows "keeps r segs seq out = keeps r segs seq0 out"
  unfolding keeps_def assms ..

lemma keeps_and_then:
  assumes "keeps r segs seq m" and "\<And>s. m = Some (Inr s) \<Longrightarrow> keeps r segs s (f s)"
  shows "keeps r segs seq (and_then m f)"
  unfolding keeps_def
proof (intro impI allI)
  fix seq'
  assume present: "map_of (cache seq) r = Some segs"
    and run: "and_then m f = returns seq'"
  from run obtain s where m: "m = Some (Inr s)" and fs: "f s = returns seq'"
    by (cases m) (auto simp: and_then_def returns_def split: sum.splits)
  from assms(1) present m have "map_of (cache s) r = Some segs"
    unfolding keeps_def returns_def by blast
  with assms(2) [OF m] fs show "map_of (cache seq') r = Some segs"
    unfolding keeps_def by blast
qed

lemma keeps_delegate:
  assumes "keeps r segs (seq\<lparr>segments := []\<rparr>) (producer (seq\<lparr>segments := []\<rparr>))"
  shows "keeps r segs seq (delegate seq producer)"
proof -
  have "keeps r segs (seq\<lparr>segments := []\<rparr>) (delegate seq producer)"
    unfolding delegate_def
    by (rule keeps_and_then [OF assms]) (rule keeps_returns, simp)
  moreover have "cache (seq\<lparr>segments := []\<rparr>) = cache seq"
    by simp
  ultimately show ?thesis
    using keeps_cache_eq by blast
qed

lemma keeps_delegateCached:
  assumes "keeps r segs (seq\<lparr>segments := []\<rparr>) (producer (seq\<lparr>segments := []\<rparr>) node)"
  shows "keeps r segs seq (delegateCached seq node producer)"
proof (cases "identity node")
  case None
  then have "delegateCached seq node producer = delegate seq (\<lambda>sub. producer sub node)"
    by (simp add: delegateCached_def)
  then show ?thesis
    using keeps_delegate [of r segs seq "\<lambda>sub. producer sub node"] assms by simp
next
  case (Some r')
  show ?thesis
  proof (cases "map_of (cache seq) r'")
    case hit: (Some segs')
    with Some have "delegateCached seq node producer =
        returns (seq\<lparr>segments := segments seq @ segs'\<rparr>)"
      by (simp add: delegateCached_def)
    then show ?thesis
      using keeps_returns [of "seq\<lparr>segments := segments seq @ segs'\<rparr>" seq r segs] by simp
  next
    case None
    show ?thesis
      unfolding keeps_def
    proof (intro impI allI)
      fix seq'
      assume present: "map_of (cache seq) r = Some segs"
        and run: "delegateCached seq node producer = returns seq'"
      from present None have "r \<noteq> r'" by auto
      from run Some None have "and_then (producer (seq\<lparr>segments := []\<rparr>) node)
          (\<lambda>sub. returns (sub\<lparr>segments := segments seq @ segments sub,
                                cache := (r', segments sub) # cache sub\<rparr>)) = returns seq'"
        by (simp add: delegateCached_def)
      then obtain sub where
        sub: "producer (seq\<lparr>segments := []\<rparr>) node = returns sub"
        and seq': "seq' = sub\<lparr>segments := segments seq @ segments sub,
                              cache := (r', segments sub) # cache sub\<rparr>"
        by (cases "producer (seq\<lparr>segments := []\<rparr>) node")
          (auto simp: and_then_def returns_def split: sum.splits)
      have "map_of (cache (seq\<lparr>segments := []\<rparr>)) r = Some segs"
        using present by simp
      with assms sub have "map_of (cache sub) r = Some segs"
        unfolding keeps_def by blast
      with \<open>r \<noteq> r'\<close> seq' show "map_of (cache seq') r = Some segs" by simp
    qed
  qed
qed

lemma cache_emit [simp]: "cache (emit seq text) = cache seq"
  by (simp add: emit_def)

lemma cache_record_event [simp]: "cache (record_event ev seq) = cache seq"
  by (simp add: record_event_def)

lemma cache_elapse [simp]: "cache (elapse n seq) = cache seq"
  by (simp add: elapse_def)

text \<open>
  What \<^verbatim>\<open>evalComponent\<close> hands to its final call of \<^verbatim>\<open>traverse\<close>: the state, the
  rendered tree and the child context.
\<close>

definition component_tree ::
  "('c, 's) modules \<Rightarrow> pass \<Rightarrow> ('c, 's) node \<Rightarrow> 'c
     \<Rightarrow> (error + pass \<times> ('c, 's) node \<times> 'c) option" where
  "component_tree E seq node context =
     (case node of
        Object r ty marker raw children attrs \<Rightarrow>
          (let componentContext = getContext E ty context in
           case ty of
             TFunction src f \<Rightarrow>
               (case f componentContext of
                  Throws e \<Rightarrow> Some (Inl e)
                | Returns instance \<Rightarrow>
                    Some (Inr (record_event (Called r) seq, instance,
                      getChildContext E ty (Inl instance) context)))
           | TClass src new \<Rightarrow>
               (case new componentContext of
                  CtorThrows e \<Rightarrow> Some (Inl e)
                | Instance s0 hook render \<Rightarrow>
                    (let seq1 = record_event (Constructed r) seq in
                     case (case hook of
                             None \<Rightarrow> (seq1, HookReturns s0 NotThenable)
                           | Some componentWillMount \<Rightarrow>
                               (record_event (WillMount r) seq1, componentWillMount s0)) of
                       (seq2, HookThrows e) \<Rightarrow> Some (Inl e)
                     | (seq2, HookReturns s1 res) \<Rightarrow>
                         (let promise = (case res of Thenable p \<Rightarrow> Some p | NotThenable \<Rightarrow> None);
                              done = (case promise of Some p \<Rightarrow> False | None \<Rightarrow> True)
                          in case loopWhile promise 0 done of
                               None \<Rightarrow> None
                             | Some n \<Rightarrow>
                                 (let seq3 = elapse n seq2;
                                      s2 = (case promise of Some (Fulfils k g) \<Rightarrow> g s1 | _ \<Rightarrow> s1)
                                  in case render s2 of
                                       Throws e \<Rightarrow> Some (Inl e)
                                     | Returns tree \<Rightarrow>
                                         Some (Inr (record_event (Rendered r) seq3, tree,
                                           getChildContext E ty (Inr s2) context))))))
           | _ \<Rightarrow> Some (Inl (TypeError ''node.type is not a function'')))
      | _ \<Rightarrow> Some (Inl (TypeError ''node.type is not a function'')))"

lemma evalComponent_component_tree:
  "evalComponent E seq node context =
     (case component_tree E seq node context of
        None \<Rightarrow> None
      | Some (Inl e) \<Rightarrow> throw e
      | Some (Inr (seq', tree, childContext)) \<Rightarrow> traverse E seq' tree childContext)"
proof (cases node)
  case (Object r ty marker raw children attrs)
  show ?thesis
  proof (cases ty)
    case (TFunction src f)
    show ?thesis
      unfolding Object TFunction
      by (simp add: evalComponent.simps component_tree_def Let_def throw_def
          split: result.split)
  next
    case (TClass src new)
    show ?thesis
    proof (cases "new (getContext E (TClass src new) context)")
      case (CtorThrows e)
      then show ?thesis
        unfolding Object TClass
        by (simp add: evalComponent.simps component_tree_def Let_def throw_def)
    next
      case (Instance s0 hook render)
      then show ?thesis
        unfolding Object TClass
        by (simp add: evalComponent.simps component_tree_def Let_def throw_def
            split: option.split hook_result.split hook_return.split result.split)
    qed
  qed (simp_all add: Object evalComponent.simps component_tree_def throw_def)
qed (simp_all add: evalComponent.simps component_tree_def throw_def)

lemma component_tree_child:
  "component_tree E seq node context = Some (Inr (seq', tree, childContext))
     \<Longrightarrow> child_of tree node \<and> cache seq' = cache seq"
  by (auto simp add: component_tree_def Let_def
      split: node.splits vtype.splits result.splits constructed.splits option.splits
        hook_result.splits hook_return.splits prod.splits
      intro: child_of.intros)

lemma keeps_dispatch_each:
  assumes "\<And>child seq. child \<in> set ys \<Longrightarrow>
      keeps r segs seq
        (case child of
           Array elems \<Rightarrow> renderChildrenArray E seq elems ctx
         | _ \<Rightarrow> traverse E seq child ctx)"
  shows "keeps r segs seq (dispatch_each E seq ys ctx)"
  using assms
proof (induction ys arbitrary: seq)
  case Nil
  show ?case by (simp add: keeps_returns)
next
  case (Cons child rest)
  have "keeps r segs seq
      (and_then
        (case child of
           Array elems \<Rightarrow> renderChildrenArray E seq elems ctx
         | _ \<Rightarrow> traverse E seq child ctx)
        (\<lambda>seq'. dispatch_each E seq' rest ctx))"
  proof (rule keeps_and_then)
    show "keeps r segs seq
        (case child of
           Array elems \<Rightarrow> renderChildrenArray E seq elems ctx
         | _ \<Rightarrow> traverse E seq child ctx)"
      by (rule Cons.prems) simp
  next
    fix s
    show "keeps r segs s (dispatch_each E s rest ctx)"
      by (rule Cons.IH) (rule Cons.prems, simp)
  qed
  then show ?case by simp
qed

lemma keeps_renderChildren:
  assumes "keeps r segs seq (traverse E seq ch ctx)"
    and "\<And>elems. ch = Array elems \<Longrightarrow> keeps r segs seq (renderChildrenArray E seq elems ctx)"
  shows "keeps r segs seq (renderChildren E seq ch ctx)"
proof (cases "truthy ch")
  case False
  then show ?thesis by (simp add: renderChildren.simps keeps_returns)
next
  case True
  then show ?thesis
    using assms by (cases ch) (simp_all add: renderChildren.simps)
qed

lemma keeps_renderNode:
  assumes "\<And>sub. keeps r segs sub (renderChildren E sub ch ctx)"
  shows "keeps r segs seq (renderNode E seq (Object r' ty marker raw ch attrs) ctx)"
proof -
  define seq4 where
    "seq4 = emit (emit (emit (emit seq (''<'' @ type_string ty)) (renderAttrs E attrs)) (REACT_ID E)) ''>''"
  have unfold: "renderNode E seq (Object r' ty marker raw ch attrs) ctx =
      and_then
        (if truthy_raw raw then returns (emit seq4 (or_empty (html_field raw)))
         else delegate seq4 (\<lambda>sub. renderChildren E sub ch ctx))
        (\<lambda>seq5. returns (emit seq5 (''</'' @ type_string ty @ ''>'')))"
    by (simp add: renderNode.simps seq4_def)
  have inner: "keeps r segs seq4
      (if truthy_raw raw then returns (emit seq4 (or_empty (html_field raw)))
       else delegate seq4 (\<lambda>sub. renderChildren E sub ch ctx))"
  proof (cases "truthy_raw raw")
    case True
    then show ?thesis by (simp add: keeps_returns)
  next
    case False
    then show ?thesis by (simp add: keeps_delegate assms)
  qed
  have "keeps r segs seq4 (renderNode E seq (Object r' ty marker raw ch attrs) ctx)"
    unfolding unfold by (rule keeps_and_then [OF inner]) (rule keeps_returns, simp)
  moreover have "cache seq4 = cache seq"
    by (simp add: seq4_def)
  ultimately show ?thesis
    using keeps_cache_eq by blast
qed

lemma keeps_evalComponent:
  assumes "\<And>seq' tree ctx'. child_of tree node \<Longrightarrow> keeps r segs seq' (traverse E seq' tree ctx')"
  shows "keeps r segs seq (evalComponent E seq node ctx)"
proof (cases "component_tree E seq node ctx")
  case None
  then show ?thesis by (simp add: evalComponent_component_tree keeps_None)
next
  case (Some res)
  show ?thesis
  proof (cases res)
    case (Inl e)
    with Some show ?thesis by (simp add: evalComponent_component_tree keeps_throw)
  next
    case (Inr triple)
    obtain seq' tree ctx' where triple: "triple = (seq', tree, ctx')"
      by (cases triple)
    from Some Inr triple have ct: "component_tree E seq node ctx = Some (Inr (seq', tree, ctx'))"
      by simp
    from component_tree_child [OF ct] have "child_of tree node" and "cache seq' = cache seq"
      by simp_all
    with assms [of tree seq' ctx'] have "keeps r segs seq (traverse E seq' tree ctx')"
      using keeps_cache_eq by blast
    with ct show ?thesis by (simp add: evalComponent_component_tree)
  qed
qed

lemma keeps_traverse_and_array:
  fixes node :: "('c, 's) node"
  shows "(\<forall>(E :: ('c, 's) modules) seq ctx. keeps r segs seq (traverse E seq node ctx))
    \<and> (\<forall>(E :: ('c, 's) modules) seq ctx elems. node = Array elems \<longrightarrow>
          keeps r segs seq (renderChildrenArray E seq elems ctx))"
proof (induction node rule: child_of_induct_all)
  case (1 x)
  have below: "keeps r segs seq (traverse E seq y ctx)" if "child_of y x"
    for y and E :: "('c, 's) modules" and seq ctx
    using 1 [OF that] by blast
  have below_array: "keeps r segs seq (renderChildrenArray E seq elems ctx)"
    if "child_of (Array elems) x"
    for elems and E :: "('c, 's) modules" and seq ctx
    using 1 [OF that] by blast
  have below_children: "keeps r segs seq (renderChildren E seq y ctx)" if "child_of y x"
    for y and E :: "('c, 's) modules" and seq ctx
    using that by (intro keeps_renderChildren below below_array) simp_all
  have arrays: "keeps r segs seq (renderChildrenArray E seq elems ctx)" if "x = Array elems"
    for elems and E :: "('c, 's) modules" and seq ctx
    unfolding renderChildrenArray_dispatch
  proof (rule keeps_dispatch_each)
    fix child seq
    assume "child \<in> set elems"
    then have sub: "child_of child x"
      using that by (simp add: child_of.element)
    show "keeps r segs seq
        (case child of
           Array elems \<Rightarrow> renderChildrenArray E seq elems ctx
         | _ \<Rightarrow> traverse E seq child ctx)"
    proof (cases child)
      case (Array nested)
      with sub show ?thesis by (simp add: below_array)
    qed (use sub in \<open>simp_all add: below\<close>)
  qed
  have "keeps r segs seq (traverse E seq x ctx)"
    for E :: "('c, 's) modules" and seq ctx
  proof (cases x)
    case (Prim p)
    then show ?thesis
      by (cases p) (simp_all add: traverse.simps keeps_returns keeps_throw unknown_node_def)
  next
    case (Array elems)
    then show ?thesis
      by (simp add: traverse.simps keeps_throw unknown_node_def)
  next
    case Closure
    then show ?thesis
      by (simp add: traverse.simps keeps_throw unknown_node_def)
  next
    case (Object r' ty marker raw ch attrs)
    have element: "keeps r segs sub (renderNode E sub x ctx)" for sub
      unfolding Object
      by (rule keeps_renderNode) (rule below_children, simp add: Object child_of.children)
    have component: "keeps r segs sub (evalComponent E sub x ctx)" for sub
      by (rule keeps_evalComponent) (rule below)
    show ?thesis
    proof (cases "type_is_string x")
      case True
      then have "traverse E seq x ctx =
          delegateCached seq x (\<lambda>seq' node'. renderNode E seq' node' ctx)"
        by (simp add: Object traverse.simps)
      then show ?thesis
        by (simp add: keeps_delegateCached element)
    next
      case False
      show ?thesis
      proof (cases "has_marker x")
        case True
        with False have "traverse E seq x ctx =
            delegateCached seq x (\<lambda>seq' node'. evalComponent E seq' node' ctx)"
          by (simp add: Object traverse.simps)
        then show ?thesis
          by (simp add: keeps_delegateCached component)
      next
        case no_marker: False
        with False have "traverse E seq x ctx = unknown_node x"
          by (simp add: Object traverse.simps)
        then show ?thesis
          by (simp add: keeps_throw unknown_node_def)
      qed
    qed
  qed
  with arrays show ?case by blast
qed

lemma traverse_keeps_cache:
  "traverse E seq node ctx = returns seq' \<Longrightarrow> map_of (cache seq) r = Some segs
     \<Longrightarrow> map_of (cache seq') r = Some segs"
  using keeps_traverse_and_array [of r segs node] unfolding keeps_def by blast

lemma delegateCached_hit:
  "identity node = Some r \<Longrightarrow> map_of (cache seq) r = Some segs \<Longrightarrow>
     delegateCached seq node producer = returns (seq\<lparr>segments := segments seq @ segs\<rparr>)"
  by (simp add: delegateCached_def)

lemma delegateCached_returns:
  assumes "identity node = Some r" and "delegateCached seq node producer = returns seq1"
  shows "\<exists>segs. segments seq1 = segments seq @ segs \<and> map_of (cache seq1) r = Some segs"
proof (cases "map_of (cache seq) r")
  case (Some segs)
  with assms have "seq1 = seq\<lparr>segments := segments seq @ segs\<rparr>"
    by (simp add: delegateCached_def returns_def)
  with Some show ?thesis by simp
next
  case None
  with assms have "and_then (producer (seq\<lparr>segments := []\<rparr>) node)
      (\<lambda>sub. returns (sub\<lparr>segments := segments seq @ segments sub,
                            cache := (r, segments sub) # cache sub\<rparr>)) = returns seq1"
    by (simp add: delegateCached_def)
  then obtain sub where "seq1 = sub\<lparr>segments := segments seq @ segments sub,
                              cache := (r, segments sub) # cache sub\<rparr>"
    by (cases "producer (seq\<lparr>segments := []\<rparr>) node")
      (auto simp: and_then_def returns_def split: sum.splits)
  then show ?thesis by simp
qed

lemma traverse_delegateCached:
  assumes "type_is_string node \<or> has_marker node"
  shows "traverse E seq node context =
     delegateCached seq node
       (if type_is_string node then (\<lambda>seq' node'. renderNode E seq' node' context)
        else (\<lambda>seq' node'. evalComponent E seq' node' context))"
  using assms by (cases node) (auto simp add: traverse.simps)

text \<open>
  Claim C8: \<^verbatim>\<open>traverse\<close> sends an element or a component reference through
  \<open>delegateCached\<close>, keyed by the node's identity.  After a first encounter that
  returned, the cache holds the segments it produced; the entry survives every later
  call of \<^verbatim>\<open>traverse\<close>; and an encounter of the same node in a state that holds the
  entry appends exactly those segments and changes nothing else, whatever the context:
  no hook, constructor, function or \<^verbatim>\<open>render\<close> is called again.
\<close>

theorem C8_second_encounter_reuses_cache:
  assumes "type_is_string node \<or> has_marker node"
    and "identity node = Some r"
    and "traverse E seq node context = returns seq1"
  shows "\<exists>segs. segments seq1 = segments seq @ segs
    \<and> map_of (cache seq1) r = Some segs
    \<and> (\<forall>other context' before after.
          traverse E before other context' = returns after
            \<and> map_of (cache before) r = Some segs
          \<longrightarrow> map_of (cache after) r = Some segs)
    \<and> (\<forall>seq2 context'.
          map_of (cache seq2) r = Some segs
          \<longrightarrow> traverse E seq2 node context' =
                returns (seq2\<lparr>segments := segments seq2 @ segs\<rparr>))"
proof -
  from assms(3) have "delegateCached seq node
       (if type_is_string node then (\<lambda>seq' node'. renderNode E seq' node' context)
        else (\<lambda>seq' node'. evalComponent E seq' node' context)) = returns seq1"
    by (simp add: traverse_delegateCached [OF assms(1)])
  from delegateCached_returns [OF assms(2) this] obtain segs where
    segs: "segments seq1 = segments seq @ segs" "map_of (cache seq1) r = Some segs"
    by blast
  have again: "traverse E seq2 node context' =
      returns (seq2\<lparr>segments := segments seq2 @ segs\<rparr>)"
    if "map_of (cache seq2) r = Some segs" for seq2 context'
    by (simp add: traverse_delegateCached [OF assms(1)] delegateCached_hit [OF assms(2) that])
  have persists: "map_of (cache after) r = Some segs"
    if "traverse E before other context' = returns after \<and> map_of (cache before) r = Some segs"
    for other context' before after
    using that traverse_keeps_cache [of E before other context' after r segs] by simp
  show ?thesis
  proof (intro exI conjI allI impI)
    show "segments seq1 = segments seq @ segs" by (rule segs(1))
    show "map_of (cache seq1) r = Some segs" by (rule segs(2))
  qed (erule persists, erule again)
qed

lemma traverse_loader:
  "traverse plain_modules fresh_pass loader () =
     returns \<lparr>segments = [''6''], cache = [(1, [''6''])],
       trace = [(0, Constructed 1), (0, WillMount 1), (3, Rendered 1)], turns = 3\<rparr>"
  by (simp add: loader_def traverse.simps delegateCached_def evalComponent.simps
      loopWhile_fulfils fresh_pass_def record_event_def elapse_def emit_def digit_char_def)

theorem C8_second_encounter_reuses_cache_witness:
  "traverse plain_modules fresh_pass loader () =
     returns \<lparr>segments = [''6''], cache = [(1, [''6''])],
       trace = [(0, Constructed 1), (0, WillMount 1), (3, Rendered 1)], turns = 3\<rparr>
   \<and> traverse plain_modules
       \<lparr>segments = [''6''], cache = [(1, [''6''])],
        trace = [(0, Constructed 1), (0, WillMount 1), (3, Rendered 1)], turns = 3\<rparr>
       loader () =
     returns \<lparr>segments = [''6'', ''6''], cache = [(1, [''6''])],
       trace = [(0, Constructed 1), (0, WillMount 1), (3, Rendered 1)], turns = 3\<rparr>"
proof -
  let ?after = "\<lparr>segments = [''6''], cache = [(1, [''6''])],
       trace = [(0, Constructed 1), (0, WillMount 1), (3, Rendered 1)], turns = 3\<rparr>"
  have marked: "type_is_string loader \<or> has_marker loader"
    by (simp add: loader_def)
  have ident: "identity loader = Some 1"
    by (simp add: loader_def)
  from C8_second_encounter_reuses_cache [OF marked ident traverse_loader] obtain segs where
    "segments ?after = segments fresh_pass @ segs"
    and again: "\<forall>seq2 context'. map_of (cache seq2) 1 = Some segs \<longrightarrow>
       traverse plain_modules seq2 loader context' =
         returns (seq2\<lparr>segments := segments seq2 @ segs\<rparr>)"
    by blast
  then have "segs = [''6'']"
    by (simp add: fresh_pass_def)
  with again have "traverse plain_modules ?after loader () =
      returns (?after\<lparr>segments := segments ?after @ [''6'']\<rparr>)"
    by simp
  with traverse_loader show ?thesis
    by simp
qed

text \<open>
  One pass over an element that holds the same component node at two positions: the
  output has the component's segment twice, and its constructor, hook and
  \<^verbatim>\<open>render\<close> ran once.
\<close>

lemma shared_child_rendered_once:
  "traverse plain_modules fresh_pass
     (Object 2 (TString ''div'') True (RawPrim Undefined) (Array [loader, loader]) []) () =
   returns \<lparr>segments = [''<div'', [], '' data-react-id'', ''>'', ''6'', ''6'', ''</div>''],
     cache = [(2, [''<div'', [], '' data-react-id'', ''>'', ''6'', ''6'', ''</div>'']), (1, [''6''])],
     trace = [(0, Constructed 1), (0, WillMount 1), (3, Rendered 1)], turns = 3\<rparr>"
  by (simp add: loader_def traverse.simps delegateCached_def delegate_def renderNode.simps
      renderChildren.simps renderChildrenArray_dispatch evalComponent.simps
      loopWhile_fulfils plain_modules_def fresh_pass_def record_event_def elapse_def emit_def
      digit_char_def)

end
